theory Spec2Isabelle
  imports Complex_Main
begin

section \<open>Scene catalog\<close>

text \<open>
  JavaScript numbers are modelled as real numbers: comparisons, \<open>Math.min\<close> and
  \<open>Math.max\<close> are exact, and the rounding of floating-point addition and division is
  not modelled. A division whose divisor is zero has no finite result in JavaScript
  (\<open>NaN\<close> or an infinity); it is modelled by \<open>None\<close>.
\<close>

datatype tone = cold | transition | warm

text \<open>
  Modelled from the spec: the type \<open>SceneDescriptor\<close> is declared in \<open>lib/scenes\<close>,
  which is imported by every component; the fields are those the components read
  (\<open>id\<close>, \<open>label\<close>, \<open>description\<close>, \<open>camera\<close>, \<open>visualCue\<close>, \<open>audioCue\<close>,
  \<open>tone\<close>, \<open>duration\<close>). The field \<open>id\<close> is named \<open>scene_id\<close> here.
\<close>

record SceneDescriptor =
  scene_id :: string
  label :: string
  description :: string
  camera :: string
  visualCue :: string
  audioCue :: string
  tone :: tone
  duration :: real

text \<open>
  Modelled from the spec: the constant \<open>TOTAL_DURATION_SECONDS\<close> is exported by
  \<open>lib/scenes\<close>; the published total duration is 60 seconds, which the test
  \<open>exposes accurate total duration\<close> asserts as well. The catalog
  \<open>SCENE_SEQUENCE\<close> of the same module is a parameter of every function that reads it.
\<close>

definition TOTAL_DURATION_SECONDS :: real where
  "TOTAL_DURATION_SECONDS = 60"

section \<open>Scene Resolver\<close>

record SceneState =
  index :: int
  sceneElapsed :: real
  totalElapsed :: real
  progress :: real

definition js_divide :: "real \<Rightarrow> real \<Rightarrow> real option" where
  "js_divide a b = (if b = 0 then None else Some (a / b))"

text \<open>
  The \<open>for\<close> loop of \<open>getSceneState\<close>, from the state \<open>(idx, accumulator)\<close>. The
  last branch is the \<open>return\<close> after the loop; \<open>SCENE_SEQUENCE.at(-1)?.duration ?? 0\<close>
  is 0 on an empty catalog.
\<close>

function getSceneState_loop ::
  "SceneDescriptor list \<Rightarrow> real \<Rightarrow> nat \<Rightarrow> real \<Rightarrow> SceneState option" where
  "getSceneState_loop SCENE_SEQUENCE elapsed idx accumulator =
     (if idx < length SCENE_SEQUENCE then
        (let scene = SCENE_SEQUENCE ! idx;
             start = accumulator;
             endAt = accumulator + duration scene
         in if elapsed < endAt \<or> int idx = int (length SCENE_SEQUENCE) - 1 then
              (let clamped = min (max (elapsed - start) 0) (duration scene)
               in map_option
                    (\<lambda>p. \<lparr>index = int idx, sceneElapsed = clamped,
                          totalElapsed = elapsed, progress = p\<rparr>)
                    (if duration scene > 0 then js_divide clamped (duration scene)
                     else Some 0))
            else getSceneState_loop SCENE_SEQUENCE elapsed (idx + 1) endAt)
      else Some \<lparr>index = int (length SCENE_SEQUENCE) - 1,
                  sceneElapsed = (case SCENE_SEQUENCE of [] \<Rightarrow> 0
                                  | _ \<Rightarrow> duration (last SCENE_SEQUENCE)),
                  totalElapsed = elapsed, progress = 1\<rparr>)"
  by pat_completeness auto
termination
  by (relation "measure (\<lambda>(SCENE_SEQUENCE, elapsed, idx, accumulator).
                  length SCENE_SEQUENCE - idx)") auto

definition getSceneState :: "SceneDescriptor list \<Rightarrow> real \<Rightarrow> SceneState option" where
  "getSceneState SCENE_SEQUENCE elapsed = getSceneState_loop SCENE_SEQUENCE elapsed 0 0"

text \<open>
  The words of the specification: the cumulative end of scene \<open>i\<close>, and the active
  scene as the first one whose cumulative end exceeds the elapsed time, or the last one.
\<close>

definition cumulative_end :: "SceneDescriptor list \<Rightarrow> nat \<Rightarrow> real" where
  "cumulative_end SCENE_SEQUENCE i = sum_list (map duration (take (Suc i) SCENE_SEQUENCE))"

definition scene_start :: "SceneDescriptor list \<Rightarrow> nat \<Rightarrow> real" where
  "scene_start SCENE_SEQUENCE i = sum_list (map duration (take i SCENE_SEQUENCE))"

definition active_scene :: "SceneDescriptor list \<Rightarrow> real \<Rightarrow> nat \<Rightarrow> bool" where
  "active_scene SCENE_SEQUENCE elapsed i \<longleftrightarrow>
     i < length SCENE_SEQUENCE \<and>
     (\<forall>j < i. cumulative_end SCENE_SEQUENCE j \<le> elapsed) \<and>
     (elapsed < cumulative_end SCENE_SEQUENCE i \<or> i = length SCENE_SEQUENCE - 1)"

text \<open>
  The scene state the specification describes for scene \<open>k\<close>: the time spent in the
  scene clamped into \<open>[0, duration]\<close>, and the local progress as their quotient, or 0 for
  a scene without duration.
\<close>

definition resolved :: "SceneDescriptor list \<Rightarrow> real \<Rightarrow> nat \<Rightarrow> SceneState" where
  "resolved SCENE_SEQUENCE elapsed k =
     (let c = min (max (elapsed - scene_start SCENE_SEQUENCE k) 0)
                (duration (SCENE_SEQUENCE ! k))
      in \<lparr>index = int k, sceneElapsed = c, totalElapsed = elapsed,
          progress = (if duration (SCENE_SEQUENCE ! k) > 0
                      then c / duration (SCENE_SEQUENCE ! k) else 0)\<rparr>)"

text \<open>A sample catalog of three scenes whose durations add up to 60 seconds.\<close>

definition sample_scene :: "string \<Rightarrow> tone \<Rightarrow> real \<Rightarrow> SceneDescriptor" where
  "sample_scene i t d =
     \<lparr>scene_id = i, label = [], description = [], camera = [], visualCue = [],
      audioCue = [], tone = t, duration = d\<rparr>"

definition sample_sequence :: "SceneDescriptor list" where
  "sample_sequence =
     [sample_scene ''basecamp'' cold 20, sample_scene ''ascent'' transition 25,
      sample_scene ''summit'' warm 15]"

section \<open>Soundscape Modulator\<close>

record GainLevels =
  windLevel :: real
  shimmerLevel :: real
  pulseLevel :: real

fun toneGains :: "tone \<Rightarrow> GainLevels" where
  "toneGains cold = \<lparr>windLevel = 0.9, shimmerLevel = 0.15, pulseLevel = 0.2\<rparr>"
| "toneGains transition = \<lparr>windLevel = 0.6, shimmerLevel = 0.4, pulseLevel = 0.45\<rparr>"
| "toneGains warm = \<lparr>windLevel = 0.3, shimmerLevel = 0.6, pulseLevel = 0.8\<rparr>"

text \<open>
  A gain parameter of the audio engine is modelled by its automation timeline: the list
  of exponential ramps scheduled on it, oldest first. \<open>cancelScheduledValues t\<close>
  removes the ramps that start at \<open>t\<close> or later, \<open>setTargetAtTime\<close> schedules one.
\<close>

record Ramp =
  target :: real
  startTime :: real
  timeConstant :: real

type_synonym AudioParam = "Ramp list"

definition cancelScheduledValues :: "real \<Rightarrow> AudioParam \<Rightarrow> AudioParam" where
  "cancelScheduledValues t p = filter (\<lambda>r. startTime r < t) p"

definition setTargetAtTime :: "real \<Rightarrow> real \<Rightarrow> real \<Rightarrow> AudioParam \<Rightarrow> AudioParam" where
  "setTargetAtTime v t c p = p @ [\<lparr>target = v, startTime = t, timeConstant = c\<rparr>]"

record InternalNodes =
  currentTime :: real
  master :: AudioParam
  wind :: AudioParam
  shimmer :: AudioParam
  pulse :: AudioParam

text \<open>
  The effect of \<open>SoundscapeController\<close> that depends on \<open>[isPlaying, mute]\<close>;
  \<open>nodesRef\<close> is \<open>None\<close> until the audio engine is initialised.
\<close>

definition masterGainEffect ::
  "bool \<Rightarrow> bool \<Rightarrow> InternalNodes option \<Rightarrow> InternalNodes option" where
  "masterGainEffect isPlaying mute nodesRef =
     (case nodesRef of
        None \<Rightarrow> None
      | Some nodes \<Rightarrow>
          if mute \<or> \<not> isPlaying then
            Some (nodes\<lparr>master :=
              setTargetAtTime 0.0001 (currentTime nodes) 0.4
                (cancelScheduledValues (currentTime nodes) (master nodes))\<rparr>)
          else
            Some (nodes\<lparr>master :=
              setTargetAtTime 0.45 (currentTime nodes) 0.2
                (cancelScheduledValues (currentTime nodes) (master nodes))\<rparr>))"

definition crunchPulse :: "SceneDescriptor \<Rightarrow> real \<Rightarrow> real" where
  "crunchPulse currentScene sceneProgress =
     (if scene_id currentScene = ''ascent'' \<or> scene_id currentScene = ''summit''
      then 0.35 + 0.4 * sin (sceneProgress * pi * 4)
      else 0)"

text \<open>The effect that depends on \<open>[currentScene, sceneProgress]\<close>.\<close>

definition sceneGainEffect ::
  "SceneDescriptor \<Rightarrow> real \<Rightarrow> InternalNodes option \<Rightarrow> InternalNodes option" where
  "sceneGainEffect currentScene sceneProgress nodesRef =
     (case nodesRef of
        None \<Rightarrow> None
      | Some nodes \<Rightarrow>
          (let gains = toneGains (tone currentScene);
               now = currentTime nodes;
               crunch = crunchPulse currentScene sceneProgress
           in Some (nodes\<lparr>
                wind := setTargetAtTime (windLevel gains) now 0.5
                          (cancelScheduledValues now (wind nodes)),
                shimmer := setTargetAtTime (shimmerLevel gains + crunch * 0.3) now 0.3
                             (cancelScheduledValues now (shimmer nodes)),
                pulse := setTargetAtTime (pulseLevel gains + crunch * 0.5) now 0.4
                           (cancelScheduledValues now (pulse nodes))\<rparr>)))"

definition silent_nodes :: InternalNodes where
  "silent_nodes = \<lparr>currentTime = 0, master = [], wind = [], shimmer = [], pulse = []\<rparr>"

section \<open>Playback Clock and transport\<close>

datatype PlaybackState = idle | running | complete

text \<open>
  The state of the component \<open>CinematicExperience\<close>: the three \<open>useState\<close> cells and
  the timestamp baseline \<open>lastTimestampRef\<close> (\<open>None\<close> for \<open>null\<close>).
\<close>

record Player =
  playbackState :: PlaybackState
  elapsed :: real
  mute :: bool
  lastTimestampRef :: "real option"

definition initial_player :: Player where
  "initial_player =
     \<lparr>playbackState = idle, elapsed = 0, mute = False, lastTimestampRef = None\<rparr>"

text \<open>
  The frame callback \<open>step\<close>. The test \<open>!lastTimestampRef.current\<close> holds for
  \<open>null\<close> and for the number 0, so a baseline of 0 is replaced as well.
\<close>

definition step :: "real \<Rightarrow> Player \<Rightarrow> Player" where
  "step timestamp s =
     (let baseline = (case lastTimestampRef s of
                        None \<Rightarrow> timestamp
                      | Some t \<Rightarrow> if t = 0 then timestamp else t);
          delta = (timestamp - baseline) / 1000;
          next = min (elapsed s + delta) TOTAL_DURATION_SECONDS
      in s\<lparr>lastTimestampRef := Some timestamp,
            elapsed := next,
            playbackState := (if next \<ge> TOTAL_DURATION_SECONDS then complete
                              else playbackState s)\<rparr>)"

text \<open>The branch of the clock effect taken when the phase is not \<open>running\<close>.\<close>

definition clockEffect :: "Player \<Rightarrow> Player" where
  "clockEffect s =
     (if playbackState s \<noteq> running then s\<lparr>lastTimestampRef := None\<rparr> else s)"

definition handleStart :: "Player \<Rightarrow> Player" where
  "handleStart s = s\<lparr>elapsed := 0, playbackState := running\<rparr>"

definition handleReplay :: "Player \<Rightarrow> Player" where
  "handleReplay s = s\<lparr>elapsed := 0, playbackState := running\<rparr>"

definition handlePauseToggle :: "Player \<Rightarrow> Player" where
  "handlePauseToggle s =
     (if playbackState s = running then s\<lparr>playbackState := idle\<rparr>
      else if playbackState s = idle \<and> elapsed s < TOTAL_DURATION_SECONDS
           then s\<lparr>playbackState := running\<rparr>
      else s)"

text \<open>
  The scheduling handle \<open>rafRef\<close> is not part of the state: a frame callback is an
  event, and it may arrive in any phase.
  The display hands the frame callback timestamps that never decrease: a timestamp is
  admissible when it is not before the baseline of the previous frame.
\<close>

definition frame_timestamp :: "real \<Rightarrow> Player \<Rightarrow> bool" where
  "frame_timestamp timestamp s =
     (case lastTimestampRef s of None \<Rightarrow> True | Some t \<Rightarrow> t \<le> timestamp)"

text \<open>
  The states the component can be in: from the initial render, by transport commands,
  the mute toggle, the clock effect and frame callbacks. Frame callbacks are allowed in
  every phase.
\<close>

inductive reachable :: "Player \<Rightarrow> bool" where
  reach_init: "reachable initial_player"
| reach_start: "reachable s \<Longrightarrow> reachable (handleStart s)"
| reach_replay: "reachable s \<Longrightarrow> reachable (handleReplay s)"
| reach_toggle: "reachable s \<Longrightarrow> reachable (handlePauseToggle s)"
| reach_mute: "reachable s \<Longrightarrow> reachable (s\<lparr>mute := b\<rparr>)"
| reach_effect: "reachable s \<Longrightarrow> reachable (clockEffect s)"
| reach_frame: "reachable s \<Longrightarrow> frame_timestamp timestamp s \<Longrightarrow> reachable (step timestamp s)"

text \<open>A sample run: launch, a first frame at 1 s, a frame at 70 s that ends the film.\<close>

definition finished_player :: Player where
  "finished_player = step 70000 (step 1000 (handleStart initial_player))"


section \<open>The resolver loop\<close>

lemma cumulative_end_start:
  "i < length S \<Longrightarrow> cumulative_end S i = scene_start S i + duration (S ! i)"
  by (simp add: cumulative_end_def scene_start_def take_Suc_conv_app_nth)

lemma loop_stop:
  assumes "i < length S" and "e < a + duration (S ! i) \<or> Suc i = length S"
  shows "getSceneState_loop S e i a =
           Some \<lparr>index = int i,
                 sceneElapsed = min (max (e - a) 0) (duration (S ! i)),
                 totalElapsed = e,
                 progress = (if duration (S ! i) > 0
                             then min (max (e - a) 0) (duration (S ! i)) / duration (S ! i)
                             else 0)\<rparr>"
proof -
  from assms(2) have c: "e < a + duration (S ! i) \<or> int i = int (length S) - 1" by auto
  show ?thesis using assms(1) c
    by (subst getSceneState_loop.simps) (simp add: Let_def js_divide_def)
qed

lemma loop_go:
  assumes "i < length S" and "\<not> e < a + duration (S ! i)" and "Suc i \<noteq> length S"
  shows "getSceneState_loop S e i a = getSceneState_loop S e (Suc i) (a + duration (S ! i))"
proof -
  from assms(3) have c: "int i \<noteq> int (length S) - 1" by auto
  show ?thesis using assms(1,2) c
    by (subst getSceneState_loop.simps) (simp add: Let_def)
qed

lemma loop_resolved:
  assumes "i < length S" and "a = scene_start S i"
  shows "\<exists>k. getSceneState_loop S e i a = Some (resolved S e k) \<and> i \<le> k \<and> k < length S \<and>
             (\<forall>j. i \<le> j \<and> j < k \<longrightarrow> cumulative_end S j \<le> e) \<and>
             (e < cumulative_end S k \<or> k = length S - 1)"
  using assms
proof (induction "length S - i" arbitrary: i a)
  case 0
  then show ?case by simp
next
  case (Suc n)
  show ?case
  proof (cases "e < a + duration (S ! i) \<or> Suc i = length S")
    case True
    from loop_stop[OF Suc.prems(1) True] Suc.prems True
    have "getSceneState_loop S e i a = Some (resolved S e i)"
      by (simp add: resolved_def Let_def)
    moreover from True Suc.prems have "e < cumulative_end S i \<or> i = length S - 1"
      by (auto simp: cumulative_end_start)
    ultimately show ?thesis using Suc.prems(1) by auto
  next
    case False
    then have ne: "\<not> e < a + duration (S ! i)" and nl: "Suc i \<noteq> length S" by auto
    from nl Suc.prems(1) have lt: "Suc i < length S" by simp
    from Suc.hyps(2) lt have n: "n = length S - Suc i" by simp
    have a': "a + duration (S ! i) = scene_start S (Suc i)"
      using Suc.prems by (simp add: scene_start_def take_Suc_conv_app_nth)
    from Suc.hyps(1)[OF n lt a'] obtain k where
      k: "getSceneState_loop S e (Suc i) (a + duration (S ! i)) = Some (resolved S e k)"
         "Suc i \<le> k" "k < length S"
         "\<forall>j. Suc i \<le> j \<and> j < k \<longrightarrow> cumulative_end S j \<le> e"
         "e < cumulative_end S k \<or> k = length S - 1"
      by blast
    have here: "cumulative_end S i \<le> e"
      using ne Suc.prems by (simp add: cumulative_end_start)
    have "\<forall>j. i \<le> j \<and> j < k \<longrightarrow> cumulative_end S j \<le> e"
    proof (intro allI impI)
      fix j assume "i \<le> j \<and> j < k"
      then consider "j = i" | "Suc i \<le> j \<and> j < k" by force
      then show "cumulative_end S j \<le> e" using here k(4) by cases auto
    qed
    with k loop_go[OF Suc.prems(1) ne nl] show ?thesis
      by (intro exI[of _ k]) auto
  qed
qed

lemma getSceneState_resolved:
  assumes "S \<noteq> []"
  shows "\<exists>k. getSceneState S e = Some (resolved S e k) \<and> active_scene S e k"
proof -
  from assms have "0 < length S" by simp
  from loop_resolved[OF this, of 0 e] show ?thesis
    by (auto simp: getSceneState_def scene_start_def active_scene_def)
qed

lemma getSceneState_empty:
  "getSceneState [] e = Some \<lparr>index = - 1, sceneElapsed = 0, totalElapsed = e, progress = 1\<rparr>"
  by (simp add: getSceneState_def)

lemma active_scene_unique:
  assumes "active_scene S e k" and "active_scene S e k'"
  shows "k = k'"
proof (rule ccontr)
  assume "k \<noteq> k'"
  then consider "k < k'" | "k' < k" by force
  then show False
  proof cases
    case 1
    with assms show False unfolding active_scene_def by force
  next
    case 2
    with assms show False unfolding active_scene_def by force
  qed
qed

lemma getSceneState_total: "\<exists>r. getSceneState S e = Some r"
proof (cases "S = []")
  case True
  then show ?thesis by (simp add: getSceneState_def)
next
  case False
  from getSceneState_resolved[OF this] show ?thesis by blast
qed

lemma getSceneState_active:
  assumes "S \<noteq> []" and "active_scene S e k"
  shows "getSceneState S e = Some (resolved S e k)"
proof -
  from getSceneState_resolved[OF assms(1), of e] obtain k' where
    k': "getSceneState S e = Some (resolved S e k')" "active_scene S e k'" by blast
  from active_scene_unique[OF assms(2) k'(2)] k'(1) show ?thesis by simp
qed

lemma resolved_sceneElapsed_le: "sceneElapsed (resolved S e k) \<le> duration (S ! k)"
  by (simp add: resolved_def Let_def)

lemma scene_start_le_total:
  assumes "\<forall>s\<in>set S. 0 \<le> duration s"
  shows "scene_start S n \<le> sum_list (map duration S)"
proof -
  have "sum_list (map duration S) =
          sum_list (map duration (take n S)) + sum_list (map duration (drop n S))"
    by (metis append_take_drop_id map_append sum_list_append)
  moreover have "0 \<le> sum_list (map duration (drop n S))"
  proof (rule sum_list_nonneg)
    fix x assume "x \<in> set (map duration (drop n S))"
    then obtain s where "s \<in> set (drop n S)" and "x = duration s" by auto
    with assms show "0 \<le> x" by (auto dest: in_set_dropD)
  qed
  ultimately show ?thesis by (simp add: scene_start_def)
qed

lemma scene_start_last:
  assumes "S \<noteq> []"
  shows "scene_start S (length S - 1) + duration (S ! (length S - 1)) = sum_list (map duration S)"
proof -
  from assms have "length S - 1 < length S" by simp
  from cumulative_end_start[OF this] assms show ?thesis
    by (simp add: cumulative_end_def)
qed

lemma resolver_at_start:
  assumes "S \<noteq> []" and "0 < duration (S ! 0)" and "e \<le> 0"
  shows "getSceneState S e =
           Some \<lparr>index = 0, sceneElapsed = 0, totalElapsed = e, progress = 0\<rparr>"
proof -
  from assms have "active_scene S e 0"
    by (simp add: active_scene_def cumulative_end_def take_Suc_conv_app_nth)
  from getSceneState_active[OF assms(1) this] assms(2,3) show ?thesis
    by (simp add: resolved_def scene_start_def Let_def)
qed

lemma resolver_at_end:
  assumes "S \<noteq> []" and "\<forall>s\<in>set S. 0 < duration s" and "sum_list (map duration S) \<le> e"
  shows "getSceneState S e =
           Some \<lparr>index = int (length S) - 1, sceneElapsed = duration (S ! (length S - 1)),
                 totalElapsed = e, progress = 1\<rparr>"
proof -
  let ?k = "length S - 1"
  from assms(1) have k: "?k < length S" by simp
  from assms(2) have nonneg: "\<forall>s\<in>set S. 0 \<le> duration s" by (simp add: less_imp_le)
  have "\<forall>j < ?k. cumulative_end S j \<le> e"
  proof (intro allI impI)
    fix j assume "j < ?k"
    have "cumulative_end S j = scene_start S (Suc j)"
      by (simp add: cumulative_end_def scene_start_def)
    with scene_start_le_total[OF nonneg, of "Suc j"] assms(3)
    show "cumulative_end S j \<le> e" by simp
  qed
  with k have act: "active_scene S e ?k" by (simp add: active_scene_def)
  from k assms(2) have pos: "0 < duration (S ! ?k)" by simp
  from scene_start_last[OF assms(1)] assms(3)
  have "duration (S ! ?k) \<le> e - scene_start S ?k" by simp
  with pos have "min (max (e - scene_start S ?k) 0) (duration (S ! ?k)) = duration (S ! ?k)"
    by simp
  with pos assms(1) have "resolved S e ?k =
      \<lparr>index = int (length S) - 1, sceneElapsed = duration (S ! ?k),
       totalElapsed = e, progress = 1\<rparr>"
    by (simp add: resolved_def Let_def of_nat_diff Suc_leI)
  with getSceneState_active[OF assms(1) act] show ?thesis by simp
qed

lemma resolved_progress_bounds:
  "0 \<le> progress (resolved S e k) \<and> progress (resolved S e k) \<le> 1"
  by (simp add: resolved_def Let_def)

lemma resolved_zero_duration: "duration (S ! k) \<le> 0 \<Longrightarrow> progress (resolved S e k) = 0"
  by (simp add: resolved_def Let_def)

lemma sample_sequence_nonempty: "sample_sequence \<noteq> []"
  by (simp add: sample_sequence_def)

lemma sample_sequence_positive: "\<forall>s\<in>set sample_sequence. 0 < duration s"
  by (simp add: sample_sequence_def sample_scene_def)

lemma sample_sequence_total:
  "sum_list (map duration sample_sequence) = TOTAL_DURATION_SECONDS"
  by (simp add: sample_sequence_def sample_scene_def TOTAL_DURATION_SECONDS_def)

lemma sample_sequence_resolves:
  "getSceneState sample_sequence 10 =
     Some \<lparr>index = 0, sceneElapsed = 10, totalElapsed = 10, progress = 1 / 2\<rparr>"
  "getSceneState sample_sequence 30 =
     Some \<lparr>index = 1, sceneElapsed = 10, totalElapsed = 30, progress = 2 / 5\<rparr>"
  by (simp_all add: getSceneState_def sample_sequence_def sample_scene_def js_divide_def)

section \<open>The clock invariant\<close>

lemma step_delta_nonneg:
  assumes "frame_timestamp ts s"
  shows "0 \<le> (ts - (case lastTimestampRef s of None \<Rightarrow> ts
                     | Some t \<Rightarrow> if t = 0 then ts else t)) / 1000"
  using assms by (auto simp: frame_timestamp_def split: option.splits)

lemma step_elapsed_le: "elapsed (step ts s) \<le> TOTAL_DURATION_SECONDS"
  by (simp add: step_def Let_def)

lemma step_at_total:
  assumes "elapsed s = TOTAL_DURATION_SECONDS" and "frame_timestamp ts s"
  shows "elapsed (step ts s) = TOTAL_DURATION_SECONDS \<and> playbackState (step ts s) = complete"
  using step_delta_nonneg[OF assms(2)] assms(1)
  by (simp add: step_def Let_def min_def)

lemma step_inv:
  assumes "0 \<le> elapsed s" and "elapsed s \<le> TOTAL_DURATION_SECONDS"
    and "playbackState s = complete \<longrightarrow> elapsed s = TOTAL_DURATION_SECONDS"
    and "frame_timestamp ts s"
  shows "0 \<le> elapsed (step ts s) \<and>
         (playbackState (step ts s) = complete \<longrightarrow> elapsed (step ts s) = TOTAL_DURATION_SECONDS)"
proof (cases "playbackState s = complete")
  case True
  with assms(3) have "elapsed s = TOTAL_DURATION_SECONDS" by simp
  from step_at_total[OF this assms(4)] show ?thesis
    by (simp add: TOTAL_DURATION_SECONDS_def)
next
  case False
  with step_delta_nonneg[OF assms(4)] assms(1) show ?thesis
    by (auto simp: step_def Let_def min_def TOTAL_DURATION_SECONDS_def)
qed

lemma reachable_inv:
  assumes "reachable s"
  shows "0 \<le> elapsed s \<and> elapsed s \<le> TOTAL_DURATION_SECONDS \<and>
         (playbackState s = complete \<longrightarrow> elapsed s = TOTAL_DURATION_SECONDS)"
  using assms
proof (induction rule: reachable.induct)
  case reach_init
  show ?case by (simp add: initial_player_def TOTAL_DURATION_SECONDS_def)
next
  case (reach_start s)
  show ?case by (simp add: handleStart_def TOTAL_DURATION_SECONDS_def)
next
  case (reach_replay s)
  show ?case by (simp add: handleReplay_def TOTAL_DURATION_SECONDS_def)
next
  case (reach_toggle s)
  then show ?case by (simp add: handlePauseToggle_def)
next
  case (reach_mute s b)
  then show ?case by simp
next
  case (reach_effect s)
  then show ?case by (simp add: clockEffect_def)
next
  case (reach_frame s timestamp)
  with step_inv[of s timestamp] step_elapsed_le[of timestamp s] show ?case by simp
qed

lemma finished_player_eq:
  "finished_player = \<lparr>playbackState = complete, elapsed = 60, mute = False,
                      lastTimestampRef = Some 70000\<rparr>"
  by (simp add: finished_player_def step_def handleStart_def initial_player_def Let_def
      TOTAL_DURATION_SECONDS_def)

lemma finished_player_reachable: "reachable finished_player"
  unfolding finished_player_def
proof (intro reach_frame reach_start reach_init)
  show "frame_timestamp 1000 (handleStart initial_player)"
    by (simp add: frame_timestamp_def handleStart_def initial_player_def)
  show "frame_timestamp 70000 (step 1000 (handleStart initial_player))"
    by (simp add: frame_timestamp_def step_def Let_def)
qed

section \<open>Claims about the Scene Resolver\<close>

text \<open>
  Claim C1. For a catalog that is not empty and every elapsed time, in particular every
  one in \<open>[0, total]\<close>, \<open>getSceneState\<close> returns the index of exactly one active scene:
  the first scene whose cumulative end exceeds the elapsed time, or the last scene when
  there is none. The \<open>sceneElapsed\<close> it returns is at most the duration of that scene.
\<close>

theorem getSceneState_unique_active_scene:
  assumes "S \<noteq> []"
  shows "\<exists>r k. getSceneState S e = Some r \<and> index r = int k \<and> totalElapsed r = e \<and>
               active_scene S e k \<and> (\<forall>k'. active_scene S e k' \<longrightarrow> k' = k) \<and>
               sceneElapsed r \<le> duration (S ! k)"
proof -
  from getSceneState_resolved[OF assms, of e] obtain k where
    k: "getSceneState S e = Some (resolved S e k)" "active_scene S e k" by blast
  have "\<forall>k'. active_scene S e k' \<longrightarrow> k' = k"
    using active_scene_unique[OF _ k(2)] by blast
  moreover have "index (resolved S e k) = int k" "totalElapsed (resolved S e k) = e"
    by (simp_all add: resolved_def Let_def)
  ultimately show ?thesis using k resolved_sceneElapsed_le[of S e k] by blast
qed

theorem getSceneState_unique_active_scene_witness:
  "\<exists>r. getSceneState sample_sequence 30 = Some r \<and> index r = 1 \<and>
       sceneElapsed r = 10 \<and> sceneElapsed r \<le> duration (sample_sequence ! 1)"
proof -
  from getSceneState_unique_active_scene[OF sample_sequence_nonempty, of 30]
  obtain r k where
    "getSceneState sample_sequence 30 = Some r" "index r = int k"
    "sceneElapsed r \<le> duration (sample_sequence ! k)" by blast
  with sample_sequence_resolves(2) show ?thesis by auto
qed

text \<open>
  Claim C2. On a catalog of scenes with positive durations that add up to the total
  duration, \<open>getSceneState\<close> returns index 0 with progress 0 at elapsed time 0, and the
  index of the last scene with progress 1 at the total duration.
\<close>

theorem getSceneState_boundaries:
  assumes "S \<noteq> []" and "\<forall>s\<in>set S. 0 < duration s"
    and "sum_list (map duration S) = TOTAL_DURATION_SECONDS"
  shows "(\<exists>r. getSceneState S 0 = Some r \<and> index r = 0 \<and> progress r = 0) \<and>
         (\<exists>r. getSceneState S TOTAL_DURATION_SECONDS = Some r \<and>
              index r = int (length S) - 1 \<and> progress r = 1)"
proof -
  from assms(1,2) have "0 < duration (S ! 0)" by (simp add: nth_mem)
  from resolver_at_start[OF assms(1) this, of 0]
  have first: "\<exists>r. getSceneState S 0 = Some r \<and> index r = 0 \<and> progress r = 0" by simp
  from assms(3) have "sum_list (map duration S) \<le> TOTAL_DURATION_SECONDS" by simp
  from resolver_at_end[OF assms(1,2) this]
  have "\<exists>r. getSceneState S TOTAL_DURATION_SECONDS = Some r \<and>
            index r = int (length S) - 1 \<and> progress r = 1" by simp
  with first show ?thesis by blast
qed

theorem getSceneState_boundaries_witness:
  "(\<exists>r. getSceneState sample_sequence 0 = Some r \<and> index r = 0 \<and> progress r = 0) \<and>
   (\<exists>r. getSceneState sample_sequence 60 = Some r \<and> index r = 2 \<and> progress r = 1)"
  using getSceneState_boundaries[OF sample_sequence_nonempty sample_sequence_positive
      sample_sequence_total]
  by (simp add: TOTAL_DURATION_SECONDS_def sample_sequence_def)

text \<open>
  Claim C3. The resolved scene index is monotone in the elapsed time: for
  \<open>e1 \<le> e2\<close> the index resolved for \<open>e1\<close> is at most the one resolved for \<open>e2\<close>.
  This holds for every catalog and for all elapsed times, not only those in
  \<open>[0, total]\<close>.
\<close>

theorem getSceneState_index_monotone:
  assumes "e1 \<le> e2"
  shows "\<exists>r1 r2. getSceneState S e1 = Some r1 \<and> getSceneState S e2 = Some r2 \<and>
                 index r1 \<le> index r2"
proof (cases "S = []")
  case True
  then show ?thesis by (simp add: getSceneState_def)
next
  case False
  from getSceneState_resolved[OF False, of e1] obtain k1 where
    k1: "getSceneState S e1 = Some (resolved S e1 k1)" "active_scene S e1 k1" by blast
  from getSceneState_resolved[OF False, of e2] obtain k2 where
    k2: "getSceneState S e2 = Some (resolved S e2 k2)" "active_scene S e2 k2" by blast
  have "k1 \<le> k2"
  proof (rule ccontr)
    assume "\<not> k1 \<le> k2"
    then have lt: "k2 < k1" by simp
    with k1(2) have "cumulative_end S k2 \<le> e1" and "k1 < length S"
      by (auto simp: active_scene_def)
    moreover from lt \<open>k1 < length S\<close> k2(2) have "e2 < cumulative_end S k2"
      by (auto simp: active_scene_def)
    ultimately show False using assms by simp
  qed
  then have "index (resolved S e1 k1) \<le> index (resolved S e2 k2)"
    by (simp add: resolved_def Let_def)
  with k1(1) k2(1) show ?thesis by blast
qed

theorem getSceneState_index_monotone_witness:
  "\<exists>r1 r2. getSceneState sample_sequence 10 = Some r1 \<and>
           getSceneState sample_sequence 30 = Some r2 \<and>
           index r1 = 0 \<and> index r2 = 1 \<and> index r1 \<le> index r2"
proof -
  have le: "(10::real) \<le> 30" by simp
  from getSceneState_index_monotone[OF le, of sample_sequence]
  show ?thesis by (auto simp: sample_sequence_resolves)
qed

text \<open>
  Claim C8. The division that computes the local progress never has a zero divisor:
  \<open>getSceneState\<close> returns a scene state for every catalog and every elapsed time, and
  when the resolved scene has duration 0 the progress it returns is 0.
\<close>

theorem getSceneState_zero_duration:
  "\<exists>r. getSceneState S e = Some r \<and>
       (S \<noteq> [] \<longrightarrow> 0 \<le> index r \<and> nat (index r) < length S \<and>
          (duration (S ! nat (index r)) = 0 \<longrightarrow> progress r = 0))"
proof (cases "S = []")
  case True
  then show ?thesis by (simp add: getSceneState_def)
next
  case False
  from getSceneState_resolved[OF False, of e] obtain k where
    k: "getSceneState S e = Some (resolved S e k)" "active_scene S e k" by blast
  have "index (resolved S e k) = int k" by (simp add: resolved_def Let_def)
  moreover from k(2) have "k < length S" by (simp add: active_scene_def)
  ultimately show ?thesis using k(1) resolved_zero_duration[of S k e] by auto
qed

theorem getSceneState_zero_duration_witness:
  "\<exists>r. getSceneState [sample_scene ''still'' cold 0] 5 = Some r \<and>
       index r = 0 \<and> progress r = 0"
proof -
  from getSceneState_zero_duration[of "[sample_scene ''still'' cold 0]" 5]
  obtain r where r: "getSceneState [sample_scene ''still'' cold 0] 5 = Some r"
    "0 \<le> index r" "nat (index r) < length [sample_scene ''still'' cold 0]"
    "duration ([sample_scene ''still'' cold 0] ! nat (index r)) = 0 \<longrightarrow> progress r = 0"
    by auto
  from r(2,3) have "index r = 0" by simp
  with r(1,4) show ?thesis by (simp add: sample_scene_def)
qed

text \<open>
  Claim C10. On a catalog of scenes with positive durations that add up to the total
  duration, \<open>getSceneState\<close> returns a scene state with progress in \<open>[0, 1]\<close> for every
  real elapsed time; for a negative elapsed time it is index 0 with \<open>sceneElapsed\<close> 0 and
  progress 0, and for an elapsed time at or beyond the total duration it is the index of
  the last scene with progress 1.
\<close>

theorem getSceneState_out_of_range:
  assumes "S \<noteq> []" and "\<forall>s\<in>set S. 0 < duration s"
    and "sum_list (map duration S) = TOTAL_DURATION_SECONDS"
  shows "(\<exists>r. getSceneState S e = Some r \<and> 0 \<le> progress r \<and> progress r \<le> 1) \<and>
         (e < 0 \<longrightarrow> getSceneState S e =
            Some \<lparr>index = 0, sceneElapsed = 0, totalElapsed = e, progress = 0\<rparr>) \<and>
         (TOTAL_DURATION_SECONDS \<le> e \<longrightarrow> getSceneState S e =
            Some \<lparr>index = int (length S) - 1, sceneElapsed = duration (last S),
                  totalElapsed = e, progress = 1\<rparr>)"
proof -
  from getSceneState_resolved[OF assms(1), of e] resolved_progress_bounds
  have total: "\<exists>r. getSceneState S e = Some r \<and> 0 \<le> progress r \<and> progress r \<le> 1"
    by metis
  from assms(1,2) have "0 < duration (S ! 0)" by (simp add: nth_mem)
  from resolver_at_start[OF assms(1) this, of e]
  have low: "e < 0 \<longrightarrow> getSceneState S e =
      Some \<lparr>index = 0, sceneElapsed = 0, totalElapsed = e, progress = 0\<rparr>" by simp
  from assms(1) have "last S = S ! (length S - 1)" by (rule last_conv_nth)
  with resolver_at_end[OF assms(1,2), of e] assms(3)
  have "TOTAL_DURATION_SECONDS \<le> e \<longrightarrow> getSceneState S e =
      Some \<lparr>index = int (length S) - 1, sceneElapsed = duration (last S),
            totalElapsed = e, progress = 1\<rparr>" by simp
  with total low show ?thesis by blast
qed

theorem getSceneState_out_of_range_witness:
  "getSceneState sample_sequence (- 3) =
     Some \<lparr>index = 0, sceneElapsed = 0, totalElapsed = - 3, progress = 0\<rparr> \<and>
   getSceneState sample_sequence 100 =
     Some \<lparr>index = 2, sceneElapsed = 15, totalElapsed = 100, progress = 1\<rparr>"
  using getSceneState_out_of_range[OF sample_sequence_nonempty sample_sequence_positive
      sample_sequence_total, of "- 3"]
    getSceneState_out_of_range[OF sample_sequence_nonempty sample_sequence_positive
      sample_sequence_total, of 100]
  by (simp add: TOTAL_DURATION_SECONDS_def sample_sequence_def sample_scene_def)

section \<open>Claims about the Playback Clock and the transport\<close>

text \<open>
  Claim C4. In every reachable state the elapsed time is at most the total duration,
  and a frame callback never takes it beyond the total duration. Once the phase is
  \<open>complete\<close>, a further frame callback, with a timestamp that is not before the
  previous one, leaves the elapsed time unchanged and the phase \<open>complete\<close>.
\<close>

theorem step_idempotent_when_complete:
  assumes "reachable s"
  shows "elapsed s \<le> TOTAL_DURATION_SECONDS \<and>
         elapsed (step ts s) \<le> TOTAL_DURATION_SECONDS \<and>
         (playbackState s = complete \<and> frame_timestamp ts s \<longrightarrow>
            elapsed (step ts s) = elapsed s \<and> playbackState (step ts s) = complete)"
proof -
  from reachable_inv[OF assms] have
    le: "elapsed s \<le> TOTAL_DURATION_SECONDS" and
    fin: "playbackState s = complete \<longrightarrow> elapsed s = TOTAL_DURATION_SECONDS" by simp_all
  have "playbackState s = complete \<and> frame_timestamp ts s \<longrightarrow>
          elapsed (step ts s) = elapsed s \<and> playbackState (step ts s) = complete"
  proof
    assume a: "playbackState s = complete \<and> frame_timestamp ts s"
    with fin have "elapsed s = TOTAL_DURATION_SECONDS" by simp
    from step_at_total[OF this] a this
    show "elapsed (step ts s) = elapsed s \<and> playbackState (step ts s) = complete" by simp
  qed
  with le step_elapsed_le[of ts s] show ?thesis by simp
qed

theorem step_idempotent_when_complete_witness:
  "reachable finished_player \<and> playbackState finished_player = complete \<and>
   frame_timestamp 80000 finished_player \<and>
   elapsed (step 80000 finished_player) = 60 \<and>
   playbackState (step 80000 finished_player) = complete"
  using step_idempotent_when_complete[OF finished_player_reachable, of 80000]
    finished_player_reachable
  by (simp add: finished_player_eq frame_timestamp_def)

text \<open>
  Claim C5. The transport commands are total functions of the playback state:
  \<open>handleStart\<close> and \<open>handleReplay\<close> set the elapsed time to 0 and the phase to
  \<open>running\<close>; \<open>handlePauseToggle\<close> takes \<open>running\<close> to \<open>idle\<close>, takes \<open>idle\<close> to
  \<open>running\<close> when the elapsed time is below the total duration, and leaves the state
  unchanged in every other case, the phase \<open>complete\<close> among them.
\<close>

theorem transport_commands_total:
  "handleStart s = s\<lparr>elapsed := 0, playbackState := running\<rparr> \<and>
   handleReplay s = s\<lparr>elapsed := 0, playbackState := running\<rparr> \<and>
   (playbackState s = running \<longrightarrow> handlePauseToggle s = s\<lparr>playbackState := idle\<rparr>) \<and>
   (playbackState s = idle \<and> elapsed s < TOTAL_DURATION_SECONDS \<longrightarrow>
      handlePauseToggle s = s\<lparr>playbackState := running\<rparr>) \<and>
   (playbackState s = idle \<and> \<not> elapsed s < TOTAL_DURATION_SECONDS \<longrightarrow>
      handlePauseToggle s = s) \<and>
   (playbackState s = complete \<longrightarrow> handlePauseToggle s = s)"
  by (simp add: handleStart_def handleReplay_def handlePauseToggle_def)

theorem transport_commands_total_witness:
  "handleStart finished_player = finished_player\<lparr>elapsed := 0, playbackState := running\<rparr> \<and>
   handlePauseToggle (initial_player\<lparr>playbackState := running\<rparr>) = initial_player \<and>
   handlePauseToggle (initial_player\<lparr>elapsed := 10\<rparr>) =
     initial_player\<lparr>elapsed := 10, playbackState := running\<rparr> \<and>
   handlePauseToggle finished_player = finished_player"
  using transport_commands_total[of finished_player]
    transport_commands_total[of "initial_player\<lparr>playbackState := running\<rparr>"]
    transport_commands_total[of "initial_player\<lparr>elapsed := 10\<rparr>"]
  by (simp add: finished_player_eq initial_player_def TOTAL_DURATION_SECONDS_def)

section \<open>Claims about the Soundscape Modulator\<close>

text \<open>
  Claim C6. The crunch-pulse term is 0 at every local progress for a scene whose id is
  neither \<open>ascent\<close> nor \<open>summit\<close>, so it can be nonzero only for these two; for every
  other scene the shimmer and pulse gains are ramped to the levels of the scene's tone.
\<close>

theorem crunchPulse_zero_elsewhere:
  assumes "scene_id sc \<noteq> ''ascent''" and "scene_id sc \<noteq> ''summit''"
  shows "crunchPulse sc p = 0 \<and>
         (\<exists>n'. sceneGainEffect sc p (Some n) = Some n' \<and>
               target (last (shimmer n')) = shimmerLevel (toneGains (tone sc)) \<and>
               target (last (pulse n')) = pulseLevel (toneGains (tone sc)))"
  using assms by (simp add: crunchPulse_def sceneGainEffect_def setTargetAtTime_def Let_def)

theorem crunchPulse_zero_elsewhere_witness:
  "crunchPulse (sample_scene ''basecamp'' cold 20) (1 / 2) = 0 \<and>
   (\<exists>n'. sceneGainEffect (sample_scene ''basecamp'' cold 20) (1 / 2) (Some silent_nodes)
            = Some n' \<and>
          target (last (shimmer n')) = 0.15 \<and> target (last (pulse n')) = 0.2)"
proof -
  have a: "scene_id (sample_scene ''basecamp'' cold 20) \<noteq> ''ascent''"
    and b: "scene_id (sample_scene ''basecamp'' cold 20) \<noteq> ''summit''"
    by (simp_all add: sample_scene_def)
  from crunchPulse_zero_elsewhere[OF a b, of "1 / 2" silent_nodes]
  show ?thesis by (simp add: sample_scene_def)
qed

text \<open>
  Claim C9. With the audio engine initialised, the master gain is ramped to 0.0001 when
  muted or not playing and to 0.45 otherwise; the time constant of the ramp to silence
  (0.4) is larger than the one of the ramp to the audible level (0.2).
\<close>

theorem masterGainEffect_targets:
  "\<exists>n' a. masterGainEffect playing muted (Some n) = Some n' \<and>
          last (master n') =
            (if muted \<or> \<not> playing
             then \<lparr>target = 0.0001, startTime = currentTime n, timeConstant = 0.4\<rparr>
             else \<lparr>target = 0.45, startTime = currentTime n, timeConstant = 0.2\<rparr>) \<and>
          masterGainEffect True False (Some n) = Some a \<and>
          (muted \<or> \<not> playing \<longrightarrow>
             timeConstant (last (master a)) < timeConstant (last (master n')))"
  by (simp add: masterGainEffect_def setTargetAtTime_def)

theorem masterGainEffect_targets_witness:
  "\<exists>n' a. masterGainEffect True True (Some silent_nodes) = Some n' \<and>
          target (last (master n')) = 0.0001 \<and> timeConstant (last (master n')) = 0.4 \<and>
          masterGainEffect True False (Some silent_nodes) = Some a \<and>
          timeConstant (last (master a)) < timeConstant (last (master n'))"
  using masterGainEffect_targets[of True True silent_nodes]
  by (auto simp: silent_nodes_def)

end
